theory Spec2Isabelle
  imports Main
begin

section \<open>Header normaliser\<close>

text \<open>
  \<^verbatim>\<open>CMSDataProcessor._to_snake_case\<close> (main.py, lines 39-45):
  \<^verbatim>\<open>
  return ''.join(['_' + c.lower() if c.isupper() else c
                  for c in col_name]).lstrip('_').replace(' ', '_')
  \<close>
  Column names are strings over the ASCII alphabet, where \<^verbatim>\<open>str.isupper\<close> holds
  of a one-character string exactly for the letters A to Z and \<^verbatim>\<open>str.lower\<close> adds 32
  to the code of such a letter and leaves every other character alone.
\<close>

definition isupper :: "char \<Rightarrow> bool" where
  "isupper c = (65 \<le> (of_char c :: nat) \<and> (of_char c :: nat) \<le> 90)"

definition lower :: "char \<Rightarrow> char" where
  "lower c = (if isupper c then char_of ((of_char c :: nat) + 32) else c)"

text \<open>One element of the list comprehension: \<^verbatim>\<open>'_' + c.lower() if c.isupper() else c\<close>.\<close>

definition snake_char :: "char \<Rightarrow> string" where
  "snake_char c = (if isupper c then [CHR ''_'', lower c] else [c])"

text \<open>\<^verbatim>\<open>s.lstrip(u)\<close> for a one-character \<open>u\<close>: every leading \<open>u\<close> is dropped.\<close>

definition lstrip :: "char \<Rightarrow> string \<Rightarrow> string" where
  "lstrip u s = dropWhile (\<lambda>c. c = u) s"

text \<open>\<^verbatim>\<open>s.replace(a, b)\<close> for one-character \<open>a\<close> and \<open>b\<close>.\<close>

definition replace :: "char \<Rightarrow> char \<Rightarrow> string \<Rightarrow> string" where
  "replace a b s = map (\<lambda>c. if c = a then b else c) s"

definition to_snake_case :: "string \<Rightarrow> string" where
  "to_snake_case col_name =
     replace (CHR '' '') (CHR ''_'') (lstrip (CHR ''_'') (concat (map snake_char col_name)))"

text \<open>The two conditions on a column name that the properties of the normaliser speak of.\<close>

definition no_upper_no_space :: "string \<Rightarrow> bool" where
  "no_upper_no_space s = list_all (\<lambda>c. \<not> isupper c \<and> c \<noteq> CHR '' '') s"

definition starts_with :: "char \<Rightarrow> string \<Rightarrow> bool" where
  "starts_with u s = (case s of [] \<Rightarrow> False | c # _ \<Rightarrow> c = u)"

section \<open>Version tracker\<close>

text \<open>
  The table \<^verbatim>\<open>processed_files\<close> of \<^verbatim>\<open>data/metadata.db\<close> (main.py, lines 31-37):
  \<^verbatim>\<open>dataset_id TEXT PRIMARY KEY, last_modified TEXT, last_processed TEXT\<close>.
  The primary key makes it a finite map from dataset ids to the other two columns.
\<close>

record processed_file =
  last_modified :: string
  last_processed :: string

type_synonym tracker = "string \<rightharpoonup> processed_file"

text \<open>
  \<^verbatim>\<open>SELECT last_modified FROM processed_files WHERE dataset_id = ?\<close> with
  \<^verbatim>\<open>fetchone()\<close>: \<open>None\<close> when there is no row, the one-column row otherwise.
\<close>

definition select_last_modified :: "tracker \<Rightarrow> string \<Rightarrow> string option" where
  "select_last_modified t dataset_id = map_option last_modified (t dataset_id)"

text \<open>
  \<^verbatim>\<open>_needs_update\<close> (lines 97-105): \<^verbatim>\<open>return not result or result[0] != modified_date\<close>.
  A fetched row is a non-empty tuple, so \<^verbatim>\<open>not result\<close> holds exactly when no row was found.
\<close>

definition needs_update :: "tracker \<Rightarrow> string \<Rightarrow> string \<Rightarrow> bool" where
  "needs_update t dataset_id modified_date =
     (case select_last_modified t dataset_id of
        None \<Rightarrow> True
      | Some stored \<Rightarrow> stored \<noteq> modified_date)"

text \<open>
  \<^verbatim>\<open>_update_metadata\<close> (lines 107-114):
  \<^verbatim>\<open>INSERT OR REPLACE INTO processed_files VALUES (?, ?, ?)\<close> with the dataset id, the
  version token and \<^verbatim>\<open>datetime.now().isoformat()\<close>, here the argument \<open>timestamp\<close>.
\<close>

definition update_metadata :: "tracker \<Rightarrow> string \<Rightarrow> string \<Rightarrow> string \<Rightarrow> tracker" where
  "update_metadata t dataset_id modified_date timestamp =
     t(dataset_id \<mapsto> \<lparr>last_modified = modified_date, last_processed = timestamp\<rparr>)"

section \<open>Dataset descriptors, exceptions and the environment\<close>

text \<open>
  A catalog entry is a JSON object; a key that is missing is \<open>None\<close>. The pipeline reads
  \<^verbatim>\<open>identifier\<close> (the field \<open>ident\<close>: Isabelle reserves the longer word),
  \<^verbatim>\<open>modified\<close> and \<^verbatim>\<open>distribution[0]['downloadURL']\<close>.
\<close>

record resource =
  downloadURL :: "string option"

record dataset =
  ident :: "string option"
  modified :: "string option"
  distribution :: "resource list option"

text \<open>
  The exceptions of the pipeline: the three that the code of \<^verbatim>\<open>_process_dataset\<close> raises
  itself, and \<open>Raised msg\<close> for one that requests, pandas, sqlite3 or the operating system
  raises with message \<open>msg\<close>.
\<close>

datatype exception =
    KeyError string
  | IndexError
  | UnboundLocalError string
  | Raised string

text \<open>\<^verbatim>\<open>str(e)\<close>: a \<^verbatim>\<open>KeyError\<close> prints the key in quotes.\<close>

fun str :: "exception \<Rightarrow> string" where
  "str (KeyError k) = [CHR 0x27] @ k @ [CHR 0x27]"
| "str IndexError = ''list index out of range''"
| "str (UnboundLocalError v) =
     ''cannot access local variable '' @ [CHR 0x27] @ v @ [CHR 0x27] @
     '' where it is not associated with a value''"
| "str (Raised msg) = msg"

text \<open>
  A CSV file is the list of its lines, each line the list of its cells as text; a line
  without a cell is a blank line. The body of a response arrives whole (\<open>Delivered\<close>)
  or \<^verbatim>\<open>iter_content\<close> raises after a part of it (\<open>Interrupted\<close>).
\<close>

type_synonym row = "string list"

datatype stream = Delivered "row list" | Interrupted "row list" string

datatype response = Refused string | Response nat stream

text \<open>
  The steps of one pipeline run that the world outside can make fail: opening the tracker
  database for the query and for the write, opening the staging file, reading and writing
  the chunk with a given index, and removing the staging file.
\<close>

datatype step =
    Connect_select
  | Open_temp
  | Read_chunk nat
  | Write_chunk nat
  | Remove_temp
  | Connect_upsert

record env =
  requests_get :: "string \<Rightarrow> response"
  fault :: "step \<Rightarrow> string option"
  now :: string

text \<open>Every effect of a run on the world outside, in the order the run performs them.\<close>

datatype event =
    Select string
  | Upsert string string string
  | Get string
  | Open_wb string
  | Read_csv string
  | To_csv_w string row "row list"
  | To_csv_a string "row list"
  | Remove string
  | Print string

record world =
  tracker :: tracker
  files :: "string \<rightharpoonup> row list"
  trace :: "event list"

definition emit :: "event \<Rightarrow> world \<Rightarrow> world" where
  "emit e w = w\<lparr>trace := trace w @ [e]\<rparr>"

text \<open>The events a world \<open>w'\<close> has seen since it was \<open>w\<close>.\<close>

definition new_events :: "world \<Rightarrow> world \<Rightarrow> event list" where
  "new_events w w' = drop (length (trace w)) (trace w')"

section \<open>The fetch-and-transform pipeline\<close>

text \<open>
  \<^verbatim>\<open>_needs_update\<close> and \<^verbatim>\<open>_update_metadata\<close> as the pipeline calls them: each opens a
  connection of its own, which may fail; \<^verbatim>\<open>with sqlite3.connect(...)\<close> commits the write
  when its block ends without an exception.
\<close>

definition run_needs_update ::
  "env \<Rightarrow> string \<Rightarrow> string \<Rightarrow> world \<Rightarrow> world \<times> (exception + bool)" where
  "run_needs_update e dataset_id modified_date w =
     (let w1 = emit (Select dataset_id) w in
      case fault e Connect_select of
        Some msg \<Rightarrow> (w1, Inl (Raised msg))
      | None \<Rightarrow> (w1, Inr (needs_update (tracker w1) dataset_id modified_date)))"

definition run_update_metadata ::
  "env \<Rightarrow> string \<Rightarrow> string \<Rightarrow> world \<Rightarrow> world \<times> exception option" where
  "run_update_metadata e dataset_id modified_date w =
     (let w1 = emit (Upsert dataset_id modified_date (now e)) w in
      case fault e Connect_upsert of
        Some msg \<Rightarrow> (w1, Some (Raised msg))
      | None \<Rightarrow>
          (w1\<lparr>tracker := update_metadata (tracker w1) dataset_id modified_date (now e)\<rparr>, None))"

text \<open>
  Line 57, \<^verbatim>\<open>dataset['distribution'][0]['downloadURL']\<close>: a missing key raises
  \<^verbatim>\<open>KeyError\<close>, an empty list \<^verbatim>\<open>IndexError\<close>.
\<close>

definition download_url :: "dataset \<Rightarrow> exception + string" where
  "download_url d =
     (case distribution d of
        None \<Rightarrow> Inl (KeyError ''distribution'')
      | Some [] \<Rightarrow> Inl IndexError
      | Some (r # _) \<Rightarrow>
          (case downloadURL r of
             None \<Rightarrow> Inl (KeyError ''downloadURL'')
           | Some url \<Rightarrow> Inr url))"

text \<open>Lines 58 and 65: the two paths of a dataset.\<close>

definition output_path :: "string \<Rightarrow> string" where
  "output_path dataset_id = ''data/processed/'' @ dataset_id @ ''.csv''"

definition temp_file :: "string \<Rightarrow> string" where
  "temp_file dataset_id = ''data/processed/temp_'' @ dataset_id @ ''.csv''"

text \<open>
  Lines 66-69: the staging file is opened for writing (which creates or truncates it) and
  the body is written as it arrives.
\<close>

definition save_body :: "env \<Rightarrow> string \<Rightarrow> stream \<Rightarrow> world \<Rightarrow> world \<times> exception option" where
  "save_body e path body w =
     (let w1 = emit (Open_wb path) w in
      case fault e Open_temp of
        Some msg \<Rightarrow> (w1, Some (Raised msg))
      | None \<Rightarrow>
          (case body of
             Delivered ls \<Rightarrow> (w1\<lparr>files := (files w1)(path \<mapsto> ls)\<rparr>, None)
           | Interrupted ls msg \<Rightarrow> (w1\<lparr>files := (files w1)(path \<mapsto> ls)\<rparr>, Some (Raised msg))))"

text \<open>
  The rows of a table in consecutive chunks of \<open>n\<close> rows, the last one shorter when \<open>n\<close>
  does not divide their number.
\<close>

fun chunks_of :: "nat \<Rightarrow> 'a list \<Rightarrow> 'a list list" where
  "chunks_of n xs =
     (if n = 0 \<or> xs = [] then [] else take n xs # chunks_of n (drop n xs))"

text \<open>
  The chunks a reader with chunk size \<open>n\<close> yields for the data rows of a file: a file with
  a header and no data row yields one chunk without rows.
\<close>

definition chunked :: "nat \<Rightarrow> 'a list \<Rightarrow> 'a list list" where
  "chunked n rows = (if rows = [] then [[]] else chunks_of n rows)"

text \<open>
  Line 74 calls \<^verbatim>\<open>pd.read_csv\<close> with \<^verbatim>\<open>chunksize\<close>, \<^verbatim>\<open>low_memory=False\<close> and \<^verbatim>\<open>dtype=str\<close>
  and leaves every other argument at its default, so the reader

  \<^item> skips blank lines (\<^verbatim>\<open>skip_blank_lines=True\<close>) and takes the first line that is left as
    the header (\<^verbatim>\<open>header='infer'\<close>);
  \<^item> names a header cell without text \<^verbatim>\<open>Unnamed: i\<close>, \<open>i\<close> its position counted from 0, and
    a name that occurred \<open>k\<close> times before \<^verbatim>\<open>name.k\<close>;
  \<^item> reads a cell whose text is one of the default missing-value markers as the missing
    value NaN (\<^verbatim>\<open>keep_default_na=True\<close>, \<^verbatim>\<open>na_filter=True\<close>) and every other cell as
    its text (\<^verbatim>\<open>dtype=str\<close>);
  \<^item> takes the width of the table from the header and the first data row, whichever has
    more cells; cells of the first data row in excess of the header lead the row and are
    its index (\<^verbatim>\<open>index_col=None\<close>), which \<^verbatim>\<open>to_csv(index=False)\<close> does not write;
  \<^item> fills a row with fewer cells than the table is wide with NaN on the right, and
    raises \<^verbatim>\<open>ParserError\<close> for a row with more (\<^verbatim>\<open>on_bad_lines='error'\<close>), from the
    fetch of the chunk that holds the row.

  A cell of a data frame is \<open>Some\<close> text or \<open>None\<close> for NaN.
\<close>

type_synonym cell = "string option"

definition na_values :: "string list" where
  "na_values =
     [[], ''#N/A'', ''#N/A N/A'', ''#NA'', ''-1.#IND'', ''-1.#QNAN'', ''-NaN'', ''-nan'',
      ''1.#IND'', ''1.#QNAN'', ''<NA>'', ''N/A'', ''NA'', ''NULL'', ''NaN'', ''None'',
      ''n/a'', ''nan'', ''null'']"

definition na_filter :: "string \<Rightarrow> cell" where
  "na_filter c = (if c \<in> set na_values then None else Some c)"

text \<open>\<^verbatim>\<open>to_csv\<close> writes NaN as \<^verbatim>\<open>na_rep\<close>, by default the empty string.\<close>

definition na_rep :: "cell \<Rightarrow> string" where
  "na_rep c = (case c of None \<Rightarrow> [] | Some s \<Rightarrow> s)"

definition written :: "cell list list \<Rightarrow> row list" where
  "written rows = map (map na_rep) rows"

text \<open>A number in decimal digits, as Python formats it.\<close>

fun decimal :: "nat \<Rightarrow> string" where
  "decimal n =
     (if n < 10 then [char_of (48 + n)]
      else decimal (n div 10) @ [char_of (48 + n mod 10)])"

definition unnamed :: "row \<Rightarrow> row" where
  "unnamed header =
     map (\<lambda>(i, c). if c = [] then ''Unnamed: '' @ decimal i else c) (enumerate 0 header)"

fun mangle_dupe_cols :: "row \<Rightarrow> row \<Rightarrow> row" where
  "mangle_dupe_cols seen [] = []"
| "mangle_dupe_cols seen (c # cs) =
     (if count_list seen c = 0 then c else c @ ''.'' @ decimal (count_list seen c))
       # mangle_dupe_cols (c # seen) cs"

definition read_header :: "row \<Rightarrow> row" where
  "read_header header = mangle_dupe_cols [] (unnamed header)"

text \<open>
  A data row of the file with the number of its line, in a table \<open>width\<close> cells wide of
  which the first \<open>lead\<close> are the index: the cells of the row in the data frame, or the
  message of the \<^verbatim>\<open>ParserError\<close>.
\<close>

definition read_row :: "nat \<Rightarrow> nat \<Rightarrow> nat \<times> row \<Rightarrow> string + cell list" where
  "read_row width lead numbered =
     (let r = snd numbered in
      if width < length r
      then Inl (''Error tokenizing data. C error: Expected '' @ decimal width
                @ '' fields in line '' @ decimal (fst numbered)
                @ '', saw '' @ decimal (length r) @ [CHR 0x0A])
      else Inr (drop lead (map na_filter r @ replicate (width - length r) None)))"

text \<open>
  The lines of a file as the reader sees them: the message of \<^verbatim>\<open>EmptyDataError\<close> when no
  line is left for the header, or else the column names and what every data row gives.
\<close>

definition read_table :: "row list \<Rightarrow> string + row \<times> (string + cell list) list" where
  "read_table ls =
     (case filter (\<lambda>numbered. snd numbered \<noteq> []) (enumerate 1 ls) of
        [] \<Rightarrow> Inl ''No columns to parse from file''
      | h # rest \<Rightarrow>
          (let width = (case rest of [] \<Rightarrow> length (snd h)
                        | r # _ \<Rightarrow> max (length (snd h)) (length (snd r)))
           in Inr (read_header (snd h),
                   map (read_row width (width - length (snd h))) rest)))"

text \<open>Fetching a chunk gives its rows, or raises for the first row of it that is too long.\<close>

fun get_chunk :: "(string + cell list) list \<Rightarrow> string + cell list list" where
  "get_chunk [] = Inr []"
| "get_chunk (Inl msg # rs) = Inl msg"
| "get_chunk (Inr r # rs) =
     (case get_chunk rs of Inl msg \<Rightarrow> Inl msg | Inr rows \<Rightarrow> Inr (r # rows))"

text \<open>
  \<^verbatim>\<open>pd.read_csv(temp_file, chunksize=n, low_memory=False, dtype=str)\<close>: the column names and
  the chunks the reader yields, in the order in which the loop fetches them.
\<close>

definition read_csv ::
  "string \<Rightarrow> nat \<Rightarrow> world \<Rightarrow>
     world \<times> (exception + row \<times> (string + cell list list) list)" where
  "read_csv path chunksize w =
     (let w1 = emit (Read_csv path) w in
      if chunksize = 0 then (w1, Inl (Raised ''chunksize must be an integer >=1''))
      else
        case files w1 path of
          None \<Rightarrow> (w1, Inl (Raised ''No such file or directory''))
        | Some ls \<Rightarrow>
            (case read_table ls of
               Inl msg \<Rightarrow> (w1, Inl (Raised msg))
             | Inr (columns, rows) \<Rightarrow>
                 (w1, Inr (columns, map get_chunk (chunked chunksize rows)))))"

text \<open>
  \<^verbatim>\<open>chunk.to_csv(output_path, mode='w', index=False)\<close> writes the file afresh, header
  first; \<^verbatim>\<open>chunk.to_csv(output_path, mode='a', header=False, index=False)\<close> appends the
  rows to what the file holds. \<open>k\<close> is the index of the chunk.
\<close>

definition to_csv_w ::
  "env \<Rightarrow> nat \<Rightarrow> string \<Rightarrow> row \<Rightarrow> cell list list \<Rightarrow> world \<Rightarrow> world \<times> exception option" where
  "to_csv_w e k path columns rows w =
     (let w1 = emit (To_csv_w path columns (written rows)) w in
      case fault e (Write_chunk k) of
        Some msg \<Rightarrow> (w1, Some (Raised msg))
      | None \<Rightarrow> (w1\<lparr>files := (files w1)(path \<mapsto> columns # written rows)\<rparr>, None))"

definition to_csv_a ::
  "env \<Rightarrow> nat \<Rightarrow> string \<Rightarrow> cell list list \<Rightarrow> world \<Rightarrow> world \<times> exception option" where
  "to_csv_a e k path rows w =
     (let w1 = emit (To_csv_a path (written rows)) w in
      case fault e (Write_chunk k) of
        Some msg \<Rightarrow> (w1, Some (Raised msg))
      | None \<Rightarrow>
          (w1\<lparr>files := (files w1)(path \<mapsto>
                 (case files w1 path of None \<Rightarrow> [] | Some old \<Rightarrow> old) @ written rows)\<rparr>,
           None))"

text \<open>
  Lines 73-86, the loop over the chunks, with the flag \<^verbatim>\<open>first_chunk\<close>; \<open>k\<close> counts the
  chunks. Fetching a chunk from the reader may fail, for a reason of the world outside
  or for a row that is too long, and so may writing it.
\<close>

fun write_chunks ::
  "env \<Rightarrow> string \<Rightarrow> row \<Rightarrow> bool \<Rightarrow> nat \<Rightarrow> (string + cell list list) list \<Rightarrow> world
     \<Rightarrow> world \<times> exception option"
  where
  "write_chunks e path columns first_chunk k [] w = (w, None)"
| "write_chunks e path columns first_chunk k (chunk # rest) w =
     (case fault e (Read_chunk k) of
        Some msg \<Rightarrow> (w, Some (Raised msg))
      | None \<Rightarrow>
          (case chunk of
             Inl msg \<Rightarrow> (w, Some (Raised msg))
           | Inr rows \<Rightarrow>
               (case (if first_chunk
                      then to_csv_w e k path (map to_snake_case columns) rows w
                      else to_csv_a e k path rows w) of
                  (w1, Some x) \<Rightarrow> (w1, Some x)
                | (w1, None) \<Rightarrow> write_chunks e path columns False (Suc k) rest w1)))"

text \<open>Lines 73-86 as a whole, for a chunk size \<open>n\<close>; the source fixes it at 5000.\<close>

definition normalize_and_append ::
  "env \<Rightarrow> nat \<Rightarrow> string \<Rightarrow> string \<Rightarrow> world \<Rightarrow> world \<times> exception option" where
  "normalize_and_append e n staging path w =
     (case read_csv staging n w of
        (w1, Inl x) \<Rightarrow> (w1, Some x)
      | (w1, Inr (columns, chunks)) \<Rightarrow> write_chunks e path columns True 0 chunks w1)"

definition chunksize :: nat where
  "chunksize = 5000"

text \<open>Line 89, \<^verbatim>\<open>os.remove(temp_file)\<close>.\<close>

definition os_remove :: "env \<Rightarrow> string \<Rightarrow> world \<Rightarrow> world \<times> exception option" where
  "os_remove e path w =
     (let w1 = emit (Remove path) w in
      case fault e Remove_temp of
        Some msg \<Rightarrow> (w1, Some (Raised msg))
      | None \<Rightarrow> (w1\<lparr>files := (files w1)(path := None)\<rparr>, None))"

text \<open>
  Lines 63-92, the body of \<^verbatim>\<open>if response.status_code == 200:\<close>: stage the download,
  transform it, remove the staging file, record the version, report.
\<close>

definition transform_response ::
  "env \<Rightarrow> string \<Rightarrow> string \<Rightarrow> stream \<Rightarrow> world \<Rightarrow> world \<times> exception option" where
  "transform_response e dataset_id modified_date body w =
     (case save_body e (temp_file dataset_id) body w of
        (w1, Some x) \<Rightarrow> (w1, Some x)
      | (w1, None) \<Rightarrow>
          (case normalize_and_append e chunksize (temp_file dataset_id)
                  (output_path dataset_id) w1 of
             (w2, Some x) \<Rightarrow> (w2, Some x)
           | (w2, None) \<Rightarrow>
               (case os_remove e (temp_file dataset_id) w2 of
                  (w3, Some x) \<Rightarrow> (w3, Some x)
                | (w3, None) \<Rightarrow>
                    (case run_update_metadata e dataset_id modified_date w3 of
                       (w4, Some x) \<Rightarrow> (w4, Some x)
                     | (w4, None) \<Rightarrow>
                         (emit (Print (''Successfully processed '' @ dataset_id)) w4,
                          None)))))"

text \<open>
  Lines 57-92: the download. A status other than 200 skips the whole block and the
  function returns without a word.
\<close>

definition download ::
  "env \<Rightarrow> dataset \<Rightarrow> string \<Rightarrow> string \<Rightarrow> world \<Rightarrow> world \<times> exception option" where
  "download e d dataset_id modified_date w =
     (case download_url d of
        Inl x \<Rightarrow> (w, Some x)
      | Inr url \<Rightarrow>
          (let w1 = emit (Get url) w in
           case requests_get e url of
             Refused msg \<Rightarrow> (w1, Some (Raised msg))
           | Response status_code body \<Rightarrow>
               if status_code = 200
               then transform_response e dataset_id modified_date body w1
               else (w1, None)))"

text \<open>Line 50, \<^verbatim>\<open>dataset.get('modified', '')\<close>.\<close>

definition modified_date :: "dataset \<Rightarrow> string" where
  "modified_date d = (case modified d of None \<Rightarrow> [] | Some m \<Rightarrow> m)"

text \<open>
  Lines 50-92: the \<^verbatim>\<open>try\<close> block from its second statement on, where \<^verbatim>\<open>dataset_id\<close>
  is bound. The result holds the exception the block raises, if any.
\<close>

definition try_block :: "env \<Rightarrow> dataset \<Rightarrow> string \<Rightarrow> world \<Rightarrow> world \<times> exception option" where
  "try_block e d dataset_id w =
     (case run_needs_update e dataset_id (modified_date d) w of
        (w1, Inl x) \<Rightarrow> (w1, Some x)
      | (w1, Inr stale) \<Rightarrow>
          if \<not> stale
          then (emit (Print (''Skipping '' @ dataset_id @ '' - already up to date'')) w1, None)
          else download e d dataset_id (modified_date d) w1)"

text \<open>
  Lines 94-95, the handler
  \<^verbatim>\<open>except Exception as e: print(f"Error processing {dataset_id}: {str(e)}")\<close>.
  Its first argument is the binding of the local variable \<^verbatim>\<open>dataset_id\<close>; formatting the
  message reads the variable, which raises \<^verbatim>\<open>UnboundLocalError\<close> while it is unbound.
  The result holds the exception that leaves the function, if any.
\<close>

definition handler ::
  "string option \<Rightarrow> exception \<Rightarrow> world \<Rightarrow> world \<times> exception option" where
  "handler binding x w =
     (case binding of
        None \<Rightarrow> (w, Some (UnboundLocalError ''dataset_id''))
      | Some dataset_id \<Rightarrow>
          (emit (Print (''Error processing '' @ dataset_id @ '': '' @ str x)) w, None))"

text \<open>
  \<^verbatim>\<open>_process_dataset\<close> (lines 47-95). Line 49, \<^verbatim>\<open>dataset_id = dataset['identifier']\<close>,
  is the first statement of the \<^verbatim>\<open>try\<close> block: when the key is missing it raises
  \<^verbatim>\<open>KeyError\<close> and leaves \<^verbatim>\<open>dataset_id\<close> unbound.
\<close>

definition process_dataset :: "env \<Rightarrow> dataset \<Rightarrow> world \<Rightarrow> world \<times> exception option" where
  "process_dataset e d w =
     (case ident d of
        None \<Rightarrow> handler None (KeyError ''identifier'') w
      | Some dataset_id \<Rightarrow>
          (case try_block e d dataset_id w of
             (w1, Some x) \<Rightarrow> handler (Some dataset_id) x w1
           | (w1, None) \<Rightarrow> (w1, None)))"

section \<open>Example inputs\<close>

text \<open>
  A catalog entry \<open>d0\<close> with all its keys, a world \<open>w0\<close> in which nothing has been
  processed yet, and an environment \<open>env0\<close> without faults that answers every request
  with status 200 and a table of two columns and three rows.
\<close>

definition d0 :: dataset where
  "d0 = \<lparr>ident = Some ''x'', modified = Some ''v1'',
          distribution = Some [\<lparr>downloadURL = Some ''u''\<rparr>]\<rparr>"

definition w0 :: world where
  "w0 = \<lparr>tracker = Map.empty, files = Map.empty, trace = []\<rparr>"

definition env0 :: env where
  "env0 = \<lparr>requests_get =
             (\<lambda>url. Response 200
                (Delivered [[''A B'', ''C''], [''1'', ''2''], [''3'', ''4''], [''5'', ''6'']])),
           fault = (\<lambda>s. None), now = ''t0''\<rparr>"

text \<open>The same environment with a server that answers every request with status 500.\<close>

definition env500 :: env where
  "env500 = env0\<lparr>requests_get := (\<lambda>url. Response 500 (Delivered []))\<rparr>"

text \<open>The entry \<open>d0\<close> without its key \<^verbatim>\<open>identifier\<close>, and without its key \<^verbatim>\<open>modified\<close>.\<close>

definition d_no_identifier :: dataset where
  "d_no_identifier = d0\<lparr>ident := None\<rparr>"

definition d_no_modified :: dataset where
  "d_no_modified = d0\<lparr>modified := None\<rparr>"





text \<open>The world after a run that found the dataset \<open>i\<close> up to date: one query, one line.\<close>

definition skipped :: "string \<Rightarrow> world \<Rightarrow> world" where
  "skipped i w =
     w\<lparr>trace := trace w @ [Select i, Print (''Skipping '' @ i @ '' - already up to date'')]\<rparr>"

text \<open>
  An environment whose server answers with status 200 and breaks the connection after the
  header line.
\<close>

definition env_broken :: env where
  "env_broken = env0\<lparr>requests_get :=
     (\<lambda>url. Response 200 (Interrupted [[''A B'', ''C'']] ''Connection broken''))\<rparr>"


section \<open>The header normaliser\<close>

text \<open>
  Claim C7: the header normaliser applied to \<^verbatim>\<open>Patient Rating Score\<close> returns
  \<^verbatim>\<open>patient_rating_score\<close>. The code returns \<^verbatim>\<open>patient__rating__score\<close> instead: each of
  the two spaces is kept when the underscore of the following capital is inserted, and
  then turned into a second underscore.
\<close>

theorem patient_rating_score_double_underscore:
  "to_snake_case ''Patient Rating Score'' = ''patient__rating__score''"
  by code_simp

text \<open>Facts about single characters and the three string operations.\<close>

lemma upper_not_underscore: "isupper c \<Longrightarrow> c \<noteq> CHR ''_'' \<and> c \<noteq> CHR '' ''"
  by (auto simp: isupper_def)

lemma lower_upper_plain:
  assumes u: "isupper c"
  shows "lower c \<noteq> CHR ''_'' \<and> lower c \<noteq> CHR '' ''"
proof -
  have "(of_char (lower c) :: nat) = of_char c + 32"
    using u by (simp add: lower_def isupper_def of_char_of)
  then have "97 \<le> (of_char (lower c) :: nat)" using u by (simp add: isupper_def)
  then show "lower c \<noteq> CHR ''_'' \<and> lower c \<noteq> CHR '' ''" by auto
qed

lemma snake_plain: "no_upper_no_space s \<Longrightarrow> concat (map snake_char s) = s"
  by (induction s) (simp_all add: no_upper_no_space_def snake_char_def)

lemma replace_absent: "a \<notin> set s \<Longrightarrow> replace a b s = s"
  by (induction s) (auto simp: replace_def)

lemma lstrip_fixed: "(lstrip u s = s) = (\<not> starts_with u s)"
proof (cases s)
  case Nil
  then show ?thesis by (simp add: lstrip_def starts_with_def)
next
  case (Cons c cs)
  have "length (dropWhile (\<lambda>x. x = u) cs) \<le> length cs"
    by (rule length_dropWhile_le)
  then have "dropWhile (\<lambda>x. x = u) cs \<noteq> c # cs"
    by auto
  with Cons show ?thesis by (auto simp: lstrip_def starts_with_def)
qed

text \<open>
  Claim C8, as the code has it: on a column name without uppercase letters and without
  spaces the normaliser removes the leading underscores and changes nothing else, so it
  is the identity exactly on the names that do not begin with an underscore.
\<close>

theorem plain_name_loses_leading_underscores:
  assumes "no_upper_no_space s"
  shows "to_snake_case s = lstrip (CHR ''_'') s
         \<and> (to_snake_case s = s) = (\<not> starts_with (CHR ''_'') s)"
proof -
  have "CHR '' '' \<notin> set s"
    using assms by (auto simp: no_upper_no_space_def list_all_iff)
  then have "CHR '' '' \<notin> set (lstrip (CHR ''_'') s)"
    unfolding lstrip_def using set_dropWhileD by fastforce
  then have "to_snake_case s = lstrip (CHR ''_'') s"
    by (simp add: to_snake_case_def snake_plain [OF assms] replace_absent)
  then show ?thesis by (simp add: lstrip_fixed)
qed

theorem plain_name_loses_leading_underscores_witness:
  "no_upper_no_space ''rating_score''
   \<and> to_snake_case ''rating_score'' = ''rating_score''
   \<and> no_upper_no_space ''__rating_score''
   \<and> to_snake_case ''__rating_score'' = ''rating_score''"
proof -
  have a: "no_upper_no_space ''rating_score''"
    and b: "no_upper_no_space ''__rating_score''"
    by (simp_all add: no_upper_no_space_def isupper_def)
  show ?thesis
    using a b plain_name_loses_leading_underscores [OF a]
      plain_name_loses_leading_underscores [OF b]
    by (simp add: starts_with_def lstrip_def)
qed

text \<open>
  Claim C8 as the specification states it, the identity on every name without uppercase
  letters and spaces, fails on a name that begins with an underscore.
\<close>

theorem underscore_id_is_changed:
  "no_upper_no_space ''_id'' \<and> to_snake_case ''_id'' = ''id'' \<and> to_snake_case ''_id'' \<noteq> ''_id''"
  by (simp add: no_upper_no_space_def isupper_def to_snake_case_def snake_char_def
      lstrip_def replace_def)

text \<open>
  Claim C9, as the code has it: the leading underscores, those of the input and the one
  a leading capital brings, are stripped before the spaces are replaced; so the result
  begins with an underscore exactly when the input, after its leading underscores, begins
  with a space.
\<close>

theorem result_starts_with_underscore_iff:
  "starts_with (CHR ''_'') (to_snake_case s) = starts_with (CHR '' '') (lstrip (CHR ''_'') s)"
proof (induction s)
  case Nil
  show ?case by (simp add: to_snake_case_def lstrip_def replace_def starts_with_def)
next
  case (Cons c s)
  consider (underscore) "c = CHR ''_''" | (upper) "isupper c"
    | (other) "c \<noteq> CHR ''_''" "\<not> isupper c"
    by blast
  then show ?case
  proof cases
    case underscore
    then have "\<not> isupper c" by (simp add: isupper_def)
    with underscore Cons show ?thesis
      by (simp add: to_snake_case_def lstrip_def snake_char_def)
  next
    case upper
    with upper_not_underscore [OF upper] lower_upper_plain [OF upper] show ?thesis
      by (simp add: to_snake_case_def lstrip_def snake_char_def replace_def starts_with_def)
  next
    case other
    then show ?thesis
      by (simp add: to_snake_case_def lstrip_def snake_char_def replace_def starts_with_def)
  qed
qed

text \<open>
  Claim C9 as stated, no result begins with an underscore, fails on a name that begins
  with a space.
\<close>

theorem leading_space_becomes_underscore:
  "to_snake_case '' a'' = ''_a'' \<and> starts_with (CHR ''_'') (to_snake_case '' a'')"
  by (simp add: to_snake_case_def snake_char_def isupper_def lstrip_def replace_def
      starts_with_def)

section \<open>The version tracker\<close>

text \<open>
  Claim C3: \<^verbatim>\<open>needs_update(id, current_token)\<close> is true exactly when the tracker has no
  record for the id or the stored token is not the string \<open>current_token\<close>; it is true
  for every id of the empty tracker; and after \<^verbatim>\<open>record_processed(id, token, t)\<close> it is
  false for the id and the token, and true for the id and the token followed by \<^verbatim>\<open>x\<close>.
\<close>

theorem needs_update_iff:
  "(needs_update t dataset_id token =
      (t dataset_id = None \<or> (\<exists>r. t dataset_id = Some r \<and> last_modified r \<noteq> token)))
   \<and> needs_update Map.empty dataset_id token
   \<and> \<not> needs_update (update_metadata t dataset_id token timestamp) dataset_id token
   \<and> needs_update (update_metadata t dataset_id token timestamp) dataset_id (token @ ''x'')"
  by (cases "t dataset_id")
     (simp_all add: needs_update_def select_last_modified_def update_metadata_def)

section \<open>The chunked transform\<close>

lemma emit_simps [simp]:
  "tracker (emit ev w) = tracker w" "files (emit ev w) = files w"
  "trace (emit ev w) = trace w @ [ev]"
  by (simp_all add: emit_def)

declare chunks_of.simps [simp del]

lemma chunks_of_Nil [simp]: "chunks_of n [] = []"
  by (simp add: chunks_of.simps)

lemma chunks_of_step: "0 < n \<Longrightarrow> xs \<noteq> [] \<Longrightarrow> chunks_of n xs = take n xs # chunks_of n (drop n xs)"
  by (subst chunks_of.simps) simp

lemma concat_chunks_of: "0 < n \<Longrightarrow> concat (chunks_of n xs) = xs"
proof (induction n xs rule: chunks_of.induct)
  case (1 n xs)
  show ?case
  proof (cases "xs = []")
    case True
    then show ?thesis by simp
  next
    case False
    with 1 show ?thesis by (simp add: chunks_of_step)
  qed
qed

lemma chunks_of_map: "chunks_of n (map f xs) = map (map f) (chunks_of n xs)"
proof (induction n xs rule: chunks_of.induct)
  case (1 n xs)
  show ?case
  proof (cases "n = 0 \<or> xs = []")
    case True
    then show ?thesis by (auto simp: chunks_of.simps)
  next
    case False
    with 1 show ?thesis by (simp add: chunks_of_step take_map drop_map)
  qed
qed

lemma chunked_cases: "0 < n \<Longrightarrow> chunked n rows \<noteq> [] \<and> concat (chunked n rows) = rows"
  by (cases "rows = []") (simp_all add: chunked_def concat_chunks_of chunks_of_step)

lemma chunked_map: "chunked n (map f xs) = map (map f) (chunked n xs)"
  by (simp add: chunked_def chunks_of_map)

lemma get_chunk_Inr: "get_chunk (map Inr rows) = Inr rows"
  by (induction rows) simp_all

lemma get_chunk_is_Inr: "get_chunk rs = Inr rows \<Longrightarrow> rs = map Inr rows"
proof (induction rs arbitrary: rows rule: get_chunk.induct)
  case 1
  then show ?case by simp
next
  case (2 msg rs)
  then show ?case by simp
next
  case (3 r rs)
  then show ?case by (auto split: sum.splits)
qed

lemma get_chunks_are_Inr: "map get_chunk cs = map Inr ds \<Longrightarrow> cs = map (map Inr) ds"
proof (induction cs arbitrary: ds)
  case Nil
  then show ?case by simp
next
  case (Cons c cs)
  then show ?case by (cases ds) (auto dest: get_chunk_is_Inr)
qed

lemma written_append: "written (xs @ ys) = written xs @ written ys"
  by (simp add: written_def)


lemma to_csv_w_result:
  "to_csv_w e k path columns rows w = (w', r) \<Longrightarrow>
     tracker w' = tracker w \<and> trace w' = trace w @ [To_csv_w path columns (written rows)]
     \<and> (r = None \<longrightarrow> files w' = (files w)(path \<mapsto> columns # written rows))"
  by (auto simp: to_csv_w_def Let_def split: option.splits)

lemma to_csv_a_result:
  "to_csv_a e k path rows w = (w', r) \<Longrightarrow>
     tracker w' = tracker w \<and> trace w' = trace w @ [To_csv_a path (written rows)]
     \<and> (r = None \<longrightarrow> files w' = (files w)(path \<mapsto> (case files w path of None \<Rightarrow> [] | Some old \<Rightarrow> old) @ written rows))"
  by (auto simp: to_csv_a_def Let_def split: option.splits)

lemma write_chunks_tracker:
  "write_chunks e path columns first k cs w = (w', r) \<Longrightarrow> tracker w' = tracker w"
proof (induction cs arbitrary: first k w)
  case Nil
  then show ?case by simp
next
  case (Cons c cs)
  then show ?case
    by (auto split: option.splits prod.splits if_splits sum.splits
        dest!: to_csv_w_result to_csv_a_result)
qed

lemma write_chunks_append:
  "write_chunks e path columns False k cs w = (w', None) \<Longrightarrow> files w path = Some old \<Longrightarrow>
     \<exists>ds. cs = map Inr ds \<and> files w' = (files w)(path \<mapsto> old @ written (concat ds))
        \<and> trace w' = trace w @ map (\<lambda>d. To_csv_a path (written d)) ds"
proof (induction cs arbitrary: k w old)
  case Nil
  then have "w' = w" by simp
  moreover have "files w = (files w)(path \<mapsto> old @ written (concat []))"
    using Nil.prems(2) by (simp add: written_def map_upd_triv)
  ultimately show ?case by (intro exI [of _ "[]"]) simp
next
  case (Cons c cs)
  from Cons.prems obtain w1 d where
    c: "c = Inr d" and
    a: "to_csv_a e k path d w = (w1, None)" and
    b: "write_chunks e path columns False (Suc k) cs w1 = (w', None)"
    by (auto split: option.splits prod.splits sum.splits)
  from to_csv_a_result [OF a] Cons.prems(2)
  have f1: "files w1 = (files w)(path \<mapsto> old @ written d)"
    and t1: "trace w1 = trace w @ [To_csv_a path (written d)]"
    by simp_all
  from f1 have "files w1 path = Some (old @ written d)" by simp
  from Cons.IH [OF b this] obtain ds where
    ds: "cs = map Inr ds"
    and f2: "files w' = (files w1)(path \<mapsto> (old @ written d) @ written (concat ds))"
    and t2: "trace w' = trace w1 @ map (\<lambda>d. To_csv_a path (written d)) ds"
    by blast
  have "c # cs = map Inr (d # ds)" using c ds by simp
  moreover have "files w' = (files w)(path \<mapsto> old @ written (concat (d # ds)))"
    using f2 f1 by (simp add: written_append)
  moreover have "trace w' = trace w @ map (\<lambda>d. To_csv_a path (written d)) (d # ds)"
    using t2 t1 by simp
  ultimately show ?case by (intro exI [of _ "d # ds"] conjI)
qed

lemma write_chunks_first:
  assumes "write_chunks e path columns True k (c # cs) w = (w', None)"
  shows "\<exists>d ds. c # cs = map Inr (d # ds)
       \<and> files w' = (files w)(path \<mapsto> map to_snake_case columns # written (d @ concat ds))
       \<and> trace w' = trace w @ To_csv_w path (map to_snake_case columns) (written d)
            # map (\<lambda>d. To_csv_a path (written d)) ds"
proof -
  from assms obtain w1 d where
    c: "c = Inr d" and
    a: "to_csv_w e k path (map to_snake_case columns) d w = (w1, None)" and
    b: "write_chunks e path columns False (Suc k) cs w1 = (w', None)"
    by (auto split: option.splits prod.splits sum.splits)
  from to_csv_w_result [OF a]
  have f1: "files w1 = (files w)(path \<mapsto> map to_snake_case columns # written d)"
    and t1: "trace w1 = trace w @ [To_csv_w path (map to_snake_case columns) (written d)]"
    by simp_all
  from f1 have "files w1 path = Some (map to_snake_case columns # written d)" by simp
  from write_chunks_append [OF b this] obtain ds where
    ds: "cs = map Inr ds"
    and f2: "files w' = (files w1)(path \<mapsto>
               (map to_snake_case columns # written d) @ written (concat ds))"
    and t2: "trace w' = trace w1 @ map (\<lambda>d. To_csv_a path (written d)) ds"
    by blast
  have "c # cs = map Inr (d # ds)" using c ds by simp
  moreover have "files w' =
      (files w)(path \<mapsto> map to_snake_case columns # written (d @ concat ds))"
    using f2 f1 by (simp add: written_append)
  moreover have "trace w' = trace w @ To_csv_w path (map to_snake_case columns) (written d)
            # map (\<lambda>d. To_csv_a path (written d)) ds"
    using t2 t1 by simp
  ultimately show ?thesis by (intro exI [of _ d] exI [of _ ds] conjI)
qed

lemma write_chunks_no_fault:
  "\<forall>k. fault e (Read_chunk k) = None \<Longrightarrow> \<forall>k. fault e (Write_chunk k) = None \<Longrightarrow>
     snd (write_chunks e path columns first k (map Inr ds) w) = None"
proof (induction ds arbitrary: first k w)
  case Nil
  then show ?case by simp
next
  case (Cons d ds)
  then show ?case
    by (simp add: to_csv_w_def to_csv_a_def Let_def)
qed

lemma read_csv_result:
  "read_csv path n w = (w1, r) \<Longrightarrow>
     tracker w1 = tracker w \<and> files w1 = files w \<and> trace w1 = trace w @ [Read_csv path]
     \<and> (\<forall>columns chunks. r = Inr (columns, chunks) \<longrightarrow>
           0 < n \<and> (\<exists>ls rows. files w path = Some ls \<and> read_table ls = Inr (columns, rows)
                      \<and> chunks = map get_chunk (chunked n rows)))"
  by (auto simp: read_csv_def Let_def split: option.splits sum.splits if_splits)

lemma normalize_and_append_tracker:
  "normalize_and_append e n staging path w = (w', r) \<Longrightarrow> tracker w' = tracker w"
  by (auto simp: normalize_and_append_def split: prod.splits sum.splits
      dest!: read_csv_result write_chunks_tracker)

lemma normalize_and_append_success:
  assumes "normalize_and_append e n staging path w = (w', None)"
  shows "\<exists>ls columns data. files w staging = Some ls
       \<and> read_table ls = Inr (columns, map Inr data) \<and> 0 < n
       \<and> files w' = (files w)(path \<mapsto> map to_snake_case columns # written data)
       \<and> trace w' = trace w @ Read_csv staging
            # To_csv_w path (map to_snake_case columns) (written (hd (chunked n data)))
            # map (\<lambda>d. To_csv_a path (written d)) (tl (chunked n data))"
proof -
  from assms obtain w1 columns chunks where
    a: "read_csv staging n w = (w1, Inr (columns, chunks))" and
    b: "write_chunks e path columns True 0 chunks w1 = (w', None)"
    by (auto simp: normalize_and_append_def split: prod.splits sum.splits)
  from read_csv_result [OF a] obtain ls rows where
    n: "0 < n" and f: "files w staging = Some ls"
    and p: "read_table ls = Inr (columns, rows)"
    and c: "chunks = map get_chunk (chunked n rows)"
    and f1: "files w1 = files w" and t1: "trace w1 = trace w @ [Read_csv staging]"
    by auto
  from chunked_cases [OF n, of rows] c
  have "chunks \<noteq> []" by simp
  then obtain c0 cs where cs: "chunks = c0 # cs"
    by (cases chunks) auto
  from write_chunks_first [OF b [unfolded cs]] obtain d ds where
    g: "c0 # cs = map Inr (d # ds)"
    and f2: "files w' = (files w1)(path \<mapsto>
               map to_snake_case columns # written (d @ concat ds))"
    and t2: "trace w' = trace w1 @ To_csv_w path (map to_snake_case columns) (written d)
            # map (\<lambda>d. To_csv_a path (written d)) ds"
    by auto
  let ?data = "d @ concat ds"
  from g cs c have "map get_chunk (chunked n rows) = map Inr (d # ds)" by simp
  then have ch: "chunked n rows = map (map Inr) (d # ds)"
    by (rule get_chunks_are_Inr)
  have "rows = concat (chunked n rows)"
    using chunked_cases [OF n, of rows] by simp
  also have "\<dots> = map Inr ?data"
    unfolding ch by (simp add: map_concat)
  finally have rows: "rows = map Inr ?data" .
  have "map (map Inr) (chunked n ?data) = map (map (Inr :: cell list \<Rightarrow> string + cell list)) (d # ds)"
    using ch unfolding rows by (simp only: chunked_map)
  then have cd: "chunked n ?data = d # ds"
    by (simp only: inj_map_eq_map [OF inj_mapI [OF inj_Inr]])
  have "files w' = (files w)(path \<mapsto> map to_snake_case columns # written ?data)"
    using f2 f1 by simp
  moreover have "trace w' = trace w @ Read_csv staging
            # To_csv_w path (map to_snake_case columns) (written (hd (chunked n ?data)))
            # map (\<lambda>d. To_csv_a path (written d)) (tl (chunked n ?data))"
    using t2 t1 cd by simp
  moreover have "read_table ls = Inr (columns, map Inr ?data)"
    using p rows by simp
  ultimately show ?thesis using f n by blast
qed

lemma normalize_and_append_no_fault:
  assumes "\<forall>k. fault e (Read_chunk k) = None" "\<forall>k. fault e (Write_chunk k) = None"
    and "0 < n" "files w staging = Some ls" "read_table ls = Inr (columns, map Inr data)"
  shows "snd (normalize_and_append e n staging path w) = None"
proof -
  have "map get_chunk (chunked n (map Inr data)) = map Inr (chunked n data)"
    by (simp add: chunked_map get_chunk_Inr)
  with assms(3,4,5) write_chunks_no_fault [OF assms(1,2)]
  show ?thesis
    by (simp add: normalize_and_append_def read_csv_def Let_def)
qed

text \<open>
  The reader on a file with a blank line, a header cell without text and a repeated name,
  cells with missing-value markers, a short row and a row that is too long; and on a file
  whose first data row has one cell more than the header.
\<close>

lemma read_table_examples:
  "read_table [[''A'', [], ''A''], [], [''1'', ''NA'', []], [''2''], [''3'', ''4'', ''5'', ''6'']]
     = Inr ([''A'', ''Unnamed: 1'', ''A.1''],
            [Inr [Some ''1'', None, None], Inr [Some ''2'', None, None],
             Inl (''Error tokenizing data. C error: Expected 3 fields in line 5, saw 4''
                  @ [CHR 0x0A])])"
  "read_table [[''A'', ''B''], [''i'', ''1'', ''2''], [''j'', ''3'']]
     = Inr ([''A'', ''B''], [Inr [Some ''1'', Some ''2''], Inr [Some ''3'', None]])"
  "read_table [[], []] = Inl ''No columns to parse from file''"
  by code_simp+










section \<open>One run of the pipeline\<close>

text \<open>What each step of a run does to the tracker, the files and the trace.\<close>

lemma paths_differ: "temp_file i \<noteq> output_path i"
proof
  assume "temp_file i = output_path i"
  then have "length (temp_file i) = length (output_path i)" by simp
  then show False by (simp add: temp_file_def output_path_def)
qed

lemma save_body_result:
  "save_body e path body w = (w1, r) \<Longrightarrow>
     tracker w1 = tracker w \<and> trace w1 = trace w @ [Open_wb path]
     \<and> (r = None \<longrightarrow> (\<exists>ls. body = Delivered ls \<and> files w1 = (files w)(path \<mapsto> ls)))"
  by (auto simp: save_body_def Let_def split: option.splits stream.splits)

lemma os_remove_result:
  "os_remove e path w = (w1, r) \<Longrightarrow>
     tracker w1 = tracker w \<and> trace w1 = trace w @ [Remove path]
     \<and> (r = None \<longrightarrow> files w1 = (files w)(path := None))"
  by (auto simp: os_remove_def Let_def split: option.splits)

lemma run_update_metadata_result:
  "run_update_metadata e i m w = (w1, r) \<Longrightarrow>
     files w1 = files w \<and> trace w1 = trace w @ [Upsert i m (now e)]
     \<and> (case r of None \<Rightarrow> tracker w1 = update_metadata (tracker w) i m (now e)
                 | Some x \<Rightarrow> tracker w1 = tracker w)"
  by (auto simp: run_update_metadata_def Let_def split: option.splits)

lemma transform_response_result:
  assumes "transform_response e i m body w = (w', r)"
  shows "tracker w' = tracker w
       \<or> (r = None \<and> (\<exists>ls columns data evs.
            body = Delivered ls \<and> read_table ls = Inr (columns, map Inr data)
          \<and> files w' (output_path i) = Some (map to_snake_case columns # written data)
          \<and> files w' (temp_file i) = None
          \<and> tracker w' = update_metadata (tracker w) i m (now e)
          \<and> trace w' = trace w @ evs @ [Remove (temp_file i), Upsert i m (now e),
                                        Print (''Successfully processed '' @ i)]))"
proof -
  obtain w1 r1 where s1: "save_body e (temp_file i) body w = (w1, r1)" by fastforce
  obtain w2 r2 where s2: "normalize_and_append e chunksize (temp_file i) (output_path i) w1 = (w2, r2)" by fastforce
  obtain w3 r3 where s3: "os_remove e (temp_file i) w2 = (w3, r3)" by fastforce
  obtain w4 r4 where s4: "run_update_metadata e i m w3 = (w4, r4)" by fastforce
  note t1 = save_body_result [OF s1]
  note t2 = normalize_and_append_tracker [OF s2]
  note t3 = os_remove_result [OF s3]
  note t4 = run_update_metadata_result [OF s4]
  show ?thesis
  proof (cases "r1 = None \<and> r2 = None \<and> r3 = None \<and> r4 = None")
    case False
    with assms s1 s2 s3 s4 t1 t2 t3 t4 have "tracker w' = tracker w"
      by (auto simp: transform_response_def split: option.splits)
    then show ?thesis ..
  next
    case True
    with assms s1 s2 s3 s4 have w': "w' = emit (Print (''Successfully processed '' @ i)) w4" and r: "r = None"
      by (auto simp: transform_response_def)
    from t1 True obtain ls where b: "body = Delivered ls" and f1: "files w1 = (files w)(temp_file i \<mapsto> ls)"
      by auto
    from normalize_and_append_success [of e chunksize "temp_file i" "output_path i" w1 w2] s2 True
    obtain ls' columns data evs where
      f: "files w1 (temp_file i) = Some ls'"
      and p': "read_table ls' = Inr (columns, map Inr data)"
      and f2: "files w2 = (files w1)(output_path i \<mapsto> map to_snake_case columns # written data)"
      and tr2: "trace w2 = trace w1 @ evs"
      by auto
    from f f1 have "ls' = ls" by simp
    with p' have ls: "read_table ls = Inr (columns, map Inr data)" by simp
    have "files w' (output_path i) = Some (map to_snake_case columns # written data)"
      using w' t4 t3 True f2 paths_differ [of i] by auto
    moreover have "files w' (temp_file i) = None"
      using w' t4 t3 True by auto
    moreover have "tracker w' = update_metadata (tracker w) i m (now e)"
      using w' t4 t3 t2 t1 True by auto
    moreover have "trace w' = trace w @ (Open_wb (temp_file i) # evs) @ [Remove (temp_file i), Upsert i m (now e),
                                        Print (''Successfully processed '' @ i)]"
      using w' t4 t3 tr2 t1 by auto
    ultimately show ?thesis using r b ls by blast
  qed
qed

lemma run_needs_update_result:
  "run_needs_update e i m w = (w1, r) \<Longrightarrow>
     tracker w1 = tracker w \<and> files w1 = files w \<and> trace w1 = trace w @ [Select i]
     \<and> (\<forall>b. r = Inr b \<longrightarrow> b = needs_update (tracker w) i m)"
  by (auto simp: run_needs_update_def Let_def split: option.splits)

lemma download_result:
  assumes "download e d i m w = (w', r)"
  shows "tracker w' = tracker w
       \<or> (r = None \<and> (\<exists>url ls columns data evs.
            download_url d = Inr url
          \<and> requests_get e url = Response 200 (Delivered ls)
          \<and> read_table ls = Inr (columns, map Inr data)
          \<and> files w' (output_path i) = Some (map to_snake_case columns # written data)
          \<and> files w' (temp_file i) = None
          \<and> tracker w' = update_metadata (tracker w) i m (now e)
          \<and> trace w' = trace w @ (Get url # evs) @ [Remove (temp_file i), Upsert i m (now e),
                                        Print (''Successfully processed '' @ i)]))"
proof (cases "download_url d")
  case (Inl x)
  with assms show ?thesis by (simp add: download_def)
next
  case (Inr url)
  show ?thesis
  proof (cases "requests_get e url")
    case (Refused msg)
    with Inr assms show ?thesis by (auto simp: download_def Let_def)
  next
    case (Response status body)
    show ?thesis
    proof (cases "status = 200")
      case False
      with Inr Response assms show ?thesis by (auto simp: download_def Let_def)
    next
      case True
      with Inr Response assms
      have t: "transform_response e i m body (emit (Get url) w) = (w', r)"
        by (simp add: download_def Let_def)
      from transform_response_result [OF t] Inr Response True show ?thesis
        by auto
    qed
  qed
qed

lemma handler_result:
  "handler b x w = (w', r) \<Longrightarrow> tracker w' = tracker w \<and> files w' = files w"
  by (auto simp: handler_def split: option.splits)

lemma try_block_result:
  assumes "try_block e d i w = (w', r)"
  shows "tracker w' = tracker w
       \<or> (r = None \<and> needs_update (tracker w) i (modified_date d)
          \<and> (\<exists>url ls columns data evs.
            download_url d = Inr url
          \<and> requests_get e url = Response 200 (Delivered ls)
          \<and> read_table ls = Inr (columns, map Inr data)
          \<and> files w' (output_path i) = Some (map to_snake_case columns # written data)
          \<and> files w' (temp_file i) = None
          \<and> tracker w' = update_metadata (tracker w) i (modified_date d) (now e)
          \<and> trace w' = trace w @ (Select i # Get url # evs)
               @ [Remove (temp_file i), Upsert i (modified_date d) (now e),
                  Print (''Successfully processed '' @ i)]))"
proof -
  obtain w1 r1 where n: "run_needs_update e i (modified_date d) w = (w1, r1)"
    by fastforce
  note t1 = run_needs_update_result [OF n]
  show ?thesis
  proof (cases r1)
    case (Inl x)
    with assms n t1 show ?thesis by (simp add: try_block_def)
  next
    case (Inr stale)
    show ?thesis
    proof (cases stale)
      case False
      with Inr assms n t1 show ?thesis by (auto simp: try_block_def)
    next
      case True
      with Inr assms n have dl: "download e d i (modified_date d) w1 = (w', r)"
        by (simp add: try_block_def)
      from t1 Inr True have st: "needs_update (tracker w) i (modified_date d)" by blast
      from download_result [OF dl] show ?thesis
      proof
        assume "tracker w' = tracker w1"
        with t1 show ?thesis by simp
      next
        assume "r = None \<and> (\<exists>url ls columns data evs.
            download_url d = Inr url
          \<and> requests_get e url = Response 200 (Delivered ls)
          \<and> read_table ls = Inr (columns, map Inr data)
          \<and> files w' (output_path i) = Some (map to_snake_case columns # written data)
          \<and> files w' (temp_file i) = None
          \<and> tracker w' = update_metadata (tracker w1) i (modified_date d) (now e)
          \<and> trace w' = trace w1 @ (Get url # evs) @ [Remove (temp_file i),
               Upsert i (modified_date d) (now e), Print (''Successfully processed '' @ i)])"
        with t1 st show ?thesis by auto
      qed
    qed
  qed
qed

lemma process_dataset_result:
  assumes "process_dataset e d w = (w', r)"
  shows "tracker w' = tracker w
       \<or> (r = None \<and> (\<exists>i url ls columns data evs.
            ident d = Some i \<and> download_url d = Inr url
          \<and> requests_get e url = Response 200 (Delivered ls)
          \<and> read_table ls = Inr (columns, map Inr data)
          \<and> files w' (output_path i) = Some (map to_snake_case columns # written data)
          \<and> files w' (temp_file i) = None
          \<and> tracker w' = update_metadata (tracker w) i (modified_date d) (now e)
          \<and> trace w' = trace w @ (Select i # Get url # evs)
               @ [Remove (temp_file i), Upsert i (modified_date d) (now e),
                  Print (''Successfully processed '' @ i)]))"
proof (cases "ident d")
  case None
  with assms have "w' = w" by (simp add: process_dataset_def handler_def)
  then show ?thesis by simp
next
  case (Some i)
  obtain w1 r1 where t: "try_block e d i w = (w1, r1)" by fastforce
  note tr = try_block_result [OF t]
  show ?thesis
  proof (cases r1)
    case (Some x)
    with tr have "tracker w1 = tracker w" by auto
    moreover from assms \<open>ident d = Some i\<close> t Some have "handler (Some i) x w1 = (w', r)"
      by (simp add: process_dataset_def)
    ultimately have "tracker w' = tracker w" using handler_result by fastforce
    then show ?thesis by simp
  next
    case None
    with assms \<open>ident d = Some i\<close> t have eq: "w' = w1" "r = None"
      by (simp_all add: process_dataset_def)
    from tr show ?thesis
    proof
      assume "tracker w1 = tracker w"
      with eq show ?thesis by simp
    next
      assume "r1 = None \<and> needs_update (tracker w) i (modified_date d)
          \<and> (\<exists>url ls columns data evs.
            download_url d = Inr url
          \<and> requests_get e url = Response 200 (Delivered ls)
          \<and> read_table ls = Inr (columns, map Inr data)
          \<and> files w1 (output_path i) = Some (map to_snake_case columns # written data)
          \<and> files w1 (temp_file i) = None
          \<and> tracker w1 = update_metadata (tracker w) i (modified_date d) (now e)
          \<and> trace w1 = trace w @ (Select i # Get url # evs)
               @ [Remove (temp_file i), Upsert i (modified_date d) (now e),
                  Print (''Successfully processed '' @ i)])"
      then have "(r = None \<and> (\<exists>i url ls columns data evs.
            ident d = Some i \<and> download_url d = Inr url
          \<and> requests_get e url = Response 200 (Delivered ls)
          \<and> read_table ls = Inr (columns, map Inr data)
          \<and> files w' (output_path i) = Some (map to_snake_case columns # written data)
          \<and> files w' (temp_file i) = None
          \<and> tracker w' = update_metadata (tracker w) i (modified_date d) (now e)
          \<and> trace w' = trace w @ (Select i # Get url # evs)
               @ [Remove (temp_file i), Upsert i (modified_date d) (now e),
                  Print (''Successfully processed '' @ i)]))"
        using eq \<open>ident d = Some i\<close> by blast
      then show ?thesis ..
    qed
  qed
qed

lemma skip_run:
  assumes "ident d = Some i" and "fault e Connect_select = None"
    and "\<not> needs_update (tracker w) i (modified_date d)"
  shows "process_dataset e d w = (skipped i w, None)"
  using assms
  by (simp add: process_dataset_def try_block_def run_needs_update_def emit_def skipped_def)

lemma recorded_not_stale: "\<not> needs_update (update_metadata t i m ts) i m"
  by (simp add: needs_update_def select_last_modified_def update_metadata_def)

lemma run_succeeds:
  assumes i: "ident d = Some i" and u: "download_url d = Inr url"
    and g: "requests_get e url = Response 200 (Delivered ls)"
    and p: "read_table ls = Inr (columns, map Inr data)"
    and nf: "\<forall>s. fault e s = None"
    and st: "needs_update (tracker w) i (modified_date d)"
  shows "\<exists>w' evs. process_dataset e d w = (w', None)
       \<and> tracker w' = update_metadata (tracker w) i (modified_date d) (now e)
       \<and> files w' (output_path i) = Some (map to_snake_case columns # written data)
       \<and> files w' (temp_file i) = None
       \<and> trace w' = trace w @ (Select i # Get url # evs)
               @ [Remove (temp_file i), Upsert i (modified_date d) (now e),
                  Print (''Successfully processed '' @ i)]"
proof -
  let ?m = "modified_date d"
  let ?w1 = "emit (Get url) (emit (Select i) w)"
  let ?w2 = "(emit (Open_wb (temp_file i)) ?w1)\<lparr>files := (files w)(temp_file i \<mapsto> ls)\<rparr>"
  have s1: "save_body e (temp_file i) (Delivered ls) ?w1 = (?w2, None)"
    using nf by (simp add: save_body_def Let_def)
  have f2: "files ?w2 (temp_file i) = Some ls" by simp
  have "0 < chunksize" by (simp add: chunksize_def)
  with normalize_and_append_no_fault [of e chunksize ?w2 "temp_file i" ls columns data "output_path i"]
    nf f2 p
  obtain w3 where s2: "normalize_and_append e chunksize (temp_file i) (output_path i) ?w2 = (w3, None)"
    by (cases "normalize_and_append e chunksize (temp_file i) (output_path i) ?w2") auto
  from normalize_and_append_success [OF s2] f2 p
  obtain evs where f3: "files w3 = (files ?w2)(output_path i \<mapsto> map to_snake_case columns # written data)"
    and t3: "trace w3 = trace ?w2 @ evs"
    by auto
  from normalize_and_append_tracker [OF s2] have k3: "tracker w3 = tracker w"
    by simp
  let ?w4 = "(emit (Remove (temp_file i)) w3)\<lparr>files := (files w3)(temp_file i := None)\<rparr>"
  have s3: "os_remove e (temp_file i) w3 = (?w4, None)"
    using nf by (simp add: os_remove_def Let_def)
  let ?w5 = "(emit (Upsert i ?m (now e)) ?w4)\<lparr>tracker := update_metadata (tracker w) i ?m (now e)\<rparr>"
  have s4: "run_update_metadata e i ?m ?w4 = (?w5, None)"
    using nf k3 by (simp add: run_update_metadata_def Let_def)
  let ?w6 = "emit (Print (''Successfully processed '' @ i)) ?w5"
  have tr: "transform_response e i ?m (Delivered ls) ?w1 = (?w6, None)"
    by (simp add: transform_response_def s1 s2 s3 s4)
  have run: "process_dataset e d w = (?w6, None)"
    using i u g nf st tr
    by (simp add: process_dataset_def try_block_def run_needs_update_def download_def Let_def)
  have "files ?w6 (output_path i) = Some (map to_snake_case columns # written data)"
    using f3 paths_differ [of i] by auto
  moreover have "files ?w6 (temp_file i) = None" by simp
  moreover have "tracker ?w6 = update_metadata (tracker w) i ?m (now e)" by simp
  moreover have "trace ?w6 = trace w @ (Select i # Get url # Open_wb (temp_file i) # evs)
               @ [Remove (temp_file i), Upsert i ?m (now e),
                  Print (''Successfully processed '' @ i)]"
    using t3 by simp
  ultimately show ?thesis using run by blast
qed

lemma table0_read:
  "read_table [[''A B'', ''C''], [''1'', ''2''], [''3'', ''4''], [''5'', ''6'']]
     = Inr ([''A B'', ''C''],
            map Inr [[Some ''1'', Some ''2''], [Some ''3'', Some ''4''], [Some ''5'', Some ''6'']])"
  by code_simp

lemma table0_written:
  "written [[Some ''1'', Some ''2''], [Some ''3'', Some ''4''], [Some ''5'', Some ''6'']]
     = [[''1'', ''2''], [''3'', ''4''], [''5'', ''6'']]"
  by (simp add: written_def na_rep_def)

section \<open>The tracker is written after success only\<close>

text \<open>
  Claim C1: a run of \<^verbatim>\<open>_process_dataset\<close> either leaves the tracker as it was, or it
  ends without an exception after the download returned status 200 and a whole body in
  which the reader found no row too long, the output file holds the table the reader made
  of the body under the normalised header, the staging file is gone, and the record of the
  dataset holds the current version token and timestamp; then the removal of the staging
  file, the write to the tracker and the success line are the last three effects, in this
  order. When the first statement or the rest of the \<^verbatim>\<open>try\<close> block raises an exception, or
  the status of the response is not 200 (in particular not 2xx), the tracker is unchanged.
\<close>

theorem tracker_written_after_success_only:
  assumes "process_dataset e d w = (w', r)"
  shows "(tracker w' = tracker w
       \<or> (r = None \<and> (\<exists>i url ls columns data evs.
            ident d = Some i \<and> download_url d = Inr url
          \<and> requests_get e url = Response 200 (Delivered ls)
          \<and> read_table ls = Inr (columns, map Inr data)
          \<and> files w' (output_path i) = Some (map to_snake_case columns # written data)
          \<and> files w' (temp_file i) = None
          \<and> tracker w' = update_metadata (tracker w) i (modified_date d) (now e)
          \<and> trace w' = trace w @ (Select i # Get url # evs)
               @ [Remove (temp_file i), Upsert i (modified_date d) (now e),
                  Print (''Successfully processed '' @ i)])))
     \<and> (ident d = None \<or> (\<exists>i w1 x. ident d = Some i \<and> try_block e d i w = (w1, Some x))
          \<longrightarrow> tracker w' = tracker w)
     \<and> (\<forall>url status body. download_url d = Inr url \<longrightarrow>
            requests_get e url = Response status body \<longrightarrow> status \<noteq> 200 \<longrightarrow>
            tracker w' = tracker w)"
proof (intro conjI)
  show "tracker w' = tracker w
       \<or> (r = None \<and> (\<exists>i url ls columns data evs.
            ident d = Some i \<and> download_url d = Inr url
          \<and> requests_get e url = Response 200 (Delivered ls)
          \<and> read_table ls = Inr (columns, map Inr data)
          \<and> files w' (output_path i) = Some (map to_snake_case columns # written data)
          \<and> files w' (temp_file i) = None
          \<and> tracker w' = update_metadata (tracker w) i (modified_date d) (now e)
          \<and> trace w' = trace w @ (Select i # Get url # evs)
               @ [Remove (temp_file i), Upsert i (modified_date d) (now e),
                  Print (''Successfully processed '' @ i)]))"
    by (rule process_dataset_result [OF assms])
next
  show "ident d = None \<or> (\<exists>i w1 x. ident d = Some i \<and> try_block e d i w = (w1, Some x))
          \<longrightarrow> tracker w' = tracker w"
  proof
    assume "ident d = None \<or> (\<exists>i w1 x. ident d = Some i \<and> try_block e d i w = (w1, Some x))"
    then show "tracker w' = tracker w"
    proof
      assume "ident d = None"
      with assms have "w' = w" by (simp add: process_dataset_def handler_def)
      then show ?thesis by simp
    next
      assume "\<exists>i w1 x. ident d = Some i \<and> try_block e d i w = (w1, Some x)"
      then obtain i w1 x where i: "ident d = Some i" and t: "try_block e d i w = (w1, Some x)"
        by blast
      from try_block_result [OF t] have "tracker w1 = tracker w" by auto
      moreover from assms i t have "handler (Some i) x w1 = (w', r)"
        by (simp add: process_dataset_def)
      ultimately show ?thesis using handler_result by fastforce
    qed
  qed
next
  show "\<forall>url status body. download_url d = Inr url \<longrightarrow>
            requests_get e url = Response status body \<longrightarrow> status \<noteq> 200 \<longrightarrow>
            tracker w' = tracker w"
    using process_dataset_result [OF assms] by auto
qed

theorem tracker_written_after_success_only_witness:
  "(\<exists>w' r. process_dataset env500 d0 w0 = (w', r)
       \<and> download_url d0 = Inr ''u''
       \<and> requests_get env500 ''u'' = Response 500 (Delivered [])
       \<and> tracker w' = tracker w0)
   \<and> (\<exists>w' r w1. process_dataset env_broken d0 w0 = (w', r)
       \<and> ident d0 = Some ''x''
       \<and> try_block env_broken d0 ''x'' w0 = (w1, Some (Raised ''Connection broken''))
       \<and> tracker w' = tracker w0)"
proof
  obtain w' r where run: "process_dataset env500 d0 w0 = (w', r)" by fastforce
  have u: "download_url d0 = Inr ''u''"
    by (simp add: download_url_def d0_def)
  have g: "requests_get env500 ''u'' = Response 500 (Delivered [])"
    by (simp add: env500_def)
  from tracker_written_after_success_only [OF run] u g
  have "tracker w' = tracker w0" by auto
  with run u g
  show "\<exists>w' r. process_dataset env500 d0 w0 = (w', r)
       \<and> download_url d0 = Inr ''u''
       \<and> requests_get env500 ''u'' = Response 500 (Delivered [])
       \<and> tracker w' = tracker w0"
    by blast
next
  obtain w' r where run: "process_dataset env_broken d0 w0 = (w', r)" by fastforce
  have i: "ident d0 = Some ''x''"
    by (simp add: d0_def)
  obtain w1 where t: "try_block env_broken d0 ''x'' w0 = (w1, Some (Raised ''Connection broken''))"
    by (simp add: try_block_def run_needs_update_def download_def download_url_def
        transform_response_def save_body_def modified_date_def needs_update_def
        select_last_modified_def Let_def env_broken_def env0_def d0_def w0_def)
  from tracker_written_after_success_only [OF run] i t
  have "tracker w' = tracker w0" by blast
  with run i t
  show "\<exists>w' r w1. process_dataset env_broken d0 w0 = (w', r)
       \<and> ident d0 = Some ''x''
       \<and> try_block env_broken d0 ''x'' w0 = (w1, Some (Raised ''Connection broken''))
       \<and> tracker w' = tracker w0"
    by blast
qed

section \<open>The short circuit on an unchanged version\<close>

text \<open>
  Claim C2: for a dataset whose stored token is the current one, a run whose query of the
  tracker goes through ends at once: it adds the query and the line about the skip to the
  trace and nothing else, with no request and no file touched. Hence of two runs on the
  same descriptor, where the first records the version (by the theorem above it is one
  that downloaded and transformed the dataset, so it sent a request), the second is such a
  skip.
\<close>

theorem unchanged_version_short_circuits:
  assumes "ident d = Some i" and "fault e2 Connect_select = None"
  shows "(\<not> needs_update (tracker w) i (modified_date d) \<longrightarrow>
            process_dataset e2 d w = (skipped i w, None))
     \<and> (\<forall>e1 w1 r1. process_dataset e1 d w = (w1, r1) \<longrightarrow> tracker w1 \<noteq> tracker w \<longrightarrow>
            (\<exists>url. Get url \<in> set (new_events w w1))
          \<and> process_dataset e2 d w1 = (skipped i w1, None))"
proof (intro conjI allI impI)
  assume "\<not> needs_update (tracker w) i (modified_date d)"
  with assms show "process_dataset e2 d w = (skipped i w, None)"
    by (rule skip_run)
next
  fix e1 w1 r1
  assume run: "process_dataset e1 d w = (w1, r1)" and ch: "tracker w1 \<noteq> tracker w"
  from process_dataset_result [OF run] ch assms(1) obtain url evs where
    k: "tracker w1 = update_metadata (tracker w) i (modified_date d) (now e1)"
    and t: "trace w1 = trace w @ (Select i # Get url # evs)
               @ [Remove (temp_file i), Upsert i (modified_date d) (now e1),
                  Print (''Successfully processed '' @ i)]"
    by auto
  from t show "\<exists>url. Get url \<in> set (new_events w w1)"
    by (auto simp: new_events_def)
  from k have "\<not> needs_update (tracker w1) i (modified_date d)"
    by (simp add: recorded_not_stale)
  with assms show "process_dataset e2 d w1 = (skipped i w1, None)"
    by (rule skip_run)
qed

theorem unchanged_version_short_circuits_witness:
  "\<exists>w1. process_dataset env0 d0 w0 = (w1, None)
       \<and> tracker w1 \<noteq> tracker w0
       \<and> Get ''u'' \<in> set (new_events w0 w1)
       \<and> process_dataset env0 d0 w1 = (skipped ''x'' w1, None)
       \<and> new_events w1 (skipped ''x'' w1) =
           [Select ''x'', Print ''Skipping x - already up to date'']"
proof -
  have i: "ident d0 = Some ''x''" and u: "download_url d0 = Inr ''u''"
    by (simp_all add: d0_def download_url_def)
  have f: "fault env0 Connect_select = None" and nf: "\<forall>s. fault env0 s = None"
    by (simp_all add: env0_def)
  have g: "requests_get env0 ''u'' =
      Response 200 (Delivered [[''A B'', ''C''], [''1'', ''2''], [''3'', ''4''], [''5'', ''6'']])"
    by (simp add: env0_def)
  note p = table0_read
  have st: "needs_update (tracker w0) ''x'' (modified_date d0)"
    by (simp add: needs_update_def select_last_modified_def w0_def)
  from run_succeeds [OF i u g p nf st] obtain w1 evs where
    run: "process_dataset env0 d0 w0 = (w1, None)"
    and k: "tracker w1 = update_metadata (tracker w0) ''x'' (modified_date d0) (now env0)"
    and t: "trace w1 = trace w0 @ (Select ''x'' # Get ''u'' # evs)
               @ [Remove (temp_file ''x''), Upsert ''x'' (modified_date d0) (now env0),
                  Print (''Successfully processed '' @ ''x'')]"
    by blast
  from k have "tracker w1 ''x'' \<noteq> tracker w0 ''x''"
    by (simp add: update_metadata_def w0_def)
  then have ch: "tracker w1 \<noteq> tracker w0" by auto
  from t have n: "Get ''u'' \<in> set (new_events w0 w1)"
    by (simp add: new_events_def)
  from unchanged_version_short_circuits [OF i f, of w0] run ch
  have "process_dataset env0 d0 w1 = (skipped ''x'' w1, None)" by blast
  moreover have "new_events w1 (skipped ''x'' w1) =
           [Select ''x'', Print ''Skipping x - already up to date'']"
    by (simp add: new_events_def skipped_def)
  ultimately show ?thesis using run ch n by blast
qed

section \<open>A descriptor without the key modified\<close>

text \<open>
  Claim C10: for a descriptor with \<^verbatim>\<open>identifier\<close> and a download URL and without
  \<^verbatim>\<open>modified\<close>, the version token is the empty string; when the tracker does not hold
  that token for the dataset, the server answers with status 200 and a body in which the
  reader finds a header and no row too long, and no step fails, the run ends without an
  exception, the output file holds the table the reader made of the body under the
  normalised header, the record of the dataset holds the empty string as
  \<^verbatim>\<open>last_modified\<close>, and the success line is the last effect; a later run on the same descriptor, the key still absent, is a
  skip.
\<close>

theorem missing_modified_defaults_to_empty_token:
  assumes "ident d = Some i" and "modified d = None" and "download_url d = Inr url"
    and "requests_get e url = Response 200 (Delivered ls)"
    and "read_table ls = Inr (columns, map Inr data)"
    and "\<forall>s. fault e s = None"
    and "needs_update (tracker w) i []"
  shows "modified_date d = []
     \<and> (\<exists>w'. process_dataset e d w = (w', None)
          \<and> tracker w' i = Some \<lparr>last_modified = [], last_processed = now e\<rparr>
          \<and> files w' (output_path i) = Some (map to_snake_case columns # written data)
          \<and> files w' (temp_file i) = None
          \<and> last (trace w') = Print (''Successfully processed '' @ i)
          \<and> (\<forall>e2. fault e2 Connect_select = None \<longrightarrow>
                process_dataset e2 d w' = (skipped i w', None)))"
proof -
  have m: "modified_date d = []"
    using assms(2) by (simp add: modified_date_def)
  have st: "needs_update (tracker w) i (modified_date d)"
    using assms(7) m by simp
  from run_succeeds [OF assms(1,3,4,5,6) st] obtain w' evs where
    run: "process_dataset e d w = (w', None)"
    and k: "tracker w' = update_metadata (tracker w) i [] (now e)"
    and f: "files w' (output_path i) = Some (map to_snake_case columns # written data)"
      "files w' (temp_file i) = None"
    and t: "trace w' = trace w @ (Select i # Get url # evs)
               @ [Remove (temp_file i), Upsert i [] (now e),
                  Print (''Successfully processed '' @ i)]"
    unfolding m by blast
  from k have r: "tracker w' i = Some \<lparr>last_modified = [], last_processed = now e\<rparr>"
    by (simp add: update_metadata_def)
  from t have l: "last (trace w') = Print (''Successfully processed '' @ i)"
    by simp
  from k have "\<not> needs_update (tracker w') i (modified_date d)"
    by (simp add: m recorded_not_stale)
  then have "\<forall>e2. fault e2 Connect_select = None \<longrightarrow>
                process_dataset e2 d w' = (skipped i w', None)"
    using assms(1) by (simp add: skip_run)
  with m run r f l show ?thesis by blast
qed

theorem missing_modified_defaults_to_empty_token_witness:
  "\<exists>w'. process_dataset env0 d_no_modified w0 = (w', None)
       \<and> tracker w' ''x'' = Some \<lparr>last_modified = [], last_processed = ''t0''\<rparr>
       \<and> files w' (output_path ''x'') =
           Some [[''a__b'', ''c''], [''1'', ''2''], [''3'', ''4''], [''5'', ''6'']]
       \<and> process_dataset env0 d_no_modified w' = (skipped ''x'' w', None)"
proof -
  have i: "ident d_no_modified = Some ''x''" and m: "modified d_no_modified = None"
    and u: "download_url d_no_modified = Inr ''u''"
    by (simp_all add: d_no_modified_def d0_def download_url_def)
  have f: "fault env0 Connect_select = None" and nf: "\<forall>s. fault env0 s = None"
    and n: "now env0 = ''t0''"
    by (simp_all add: env0_def)
  have g: "requests_get env0 ''u'' =
      Response 200 (Delivered [[''A B'', ''C''], [''1'', ''2''], [''3'', ''4''], [''5'', ''6'']])"
    by (simp add: env0_def)
  note p = table0_read
  have st: "needs_update (tracker w0) ''x'' []"
    by (simp add: needs_update_def select_last_modified_def w0_def)
  have h: "map to_snake_case [''A B'', ''C''] = [''a__b'', ''c'']"
    by code_simp
  from missing_modified_defaults_to_empty_token [OF i m u g p nf st] f
  show ?thesis
    unfolding h n table0_written by blast
qed

section \<open>The pipeline boundary\<close>

text \<open>
  With the key \<^verbatim>\<open>identifier\<close> present no exception leaves \<^verbatim>\<open>_process_dataset\<close>: one that
  the \<^verbatim>\<open>try\<close> block raises is printed with the dataset id and its message. A response
  with a status other than 200 ends the run after the request, without a line, a file or
  a record.
\<close>

lemma exception_is_logged:
  assumes "ident d = Some i" and "try_block e d i w = (w1, Some x)"
  shows "process_dataset e d w =
           (emit (Print (''Error processing '' @ i @ '': '' @ str x)) w1, None)"
  using assms by (simp add: process_dataset_def handler_def)

lemma nothing_escapes_with_identifier:
  assumes "ident d = Some i"
  shows "snd (process_dataset e d w) = None"
  using assms
  by (cases "try_block e d i w")
     (auto simp: process_dataset_def handler_def split: option.splits)

lemma other_status_is_silent:
  assumes "ident d = Some i" and "fault e Connect_select = None"
    and "needs_update (tracker w) i (modified_date d)"
    and "download_url d = Inr url" and "requests_get e url = Response status body"
    and "status \<noteq> 200"
  shows "process_dataset e d w = (w\<lparr>trace := trace w @ [Select i, Get url]\<rparr>, None)"
  using assms
  by (simp add: process_dataset_def try_block_def run_needs_update_def download_def
      emit_def Let_def)

text \<open>
  Claim C6: every exception raised while a descriptor is processed, one with missing keys
  included, is caught, logged with the dataset id and the message, and never reaches the
  caller. For the entry without \<^verbatim>\<open>identifier\<close> the code does otherwise: the handler
  itself raises \<^verbatim>\<open>UnboundLocalError\<close>, which leaves \<^verbatim>\<open>_process_dataset\<close>, and nothing is
  printed.
\<close>

theorem missing_identifier_escapes_handler:
  "process_dataset env0 d_no_identifier w0 = (w0, Some (UnboundLocalError ''dataset_id''))"
  by (simp add: process_dataset_def handler_def d_no_identifier_def d0_def)

text \<open>
  Claim C5: a response whose status is not 2xx is a logged failure without output and
  without a metadata update. For status 500 the code queries the tracker, sends the
  request and returns: no line is printed.
\<close>

theorem status_500_prints_nothing:
  "process_dataset env500 d0 w0 = (w0\<lparr>trace := [Select ''x'', Get ''u'']\<rparr>, None)"
  by (simp add: process_dataset_def try_block_def run_needs_update_def download_def
      download_url_def modified_date_def needs_update_def select_last_modified_def
      emit_def env500_def env0_def d0_def w0_def)

end
